theory Spec2Isabelle
  imports Complex_Main "HOL-Library.Word" "HOL-Library.Sublist"
begin

section \<open>The data of the two files\<close>

text \<open>
  The structs of \<^verbatim>\<open>pkg/tag/tag.go\<close> and \<^verbatim>\<open>pkg/triage/collection.go\<close> come first, the
  functions after them. Several structs share field names (\<^verbatim>\<open>ID\<close>, \<^verbatim>\<open>Name\<close>,
  \<^verbatim>\<open>TotalAgeDays\<close>), so a field is written with its struct: \<open>Tag.ID\<close>,
  \<open>Collection.ID\<close>. The field \<^verbatim>\<open>Dedup\<close> of a collection is \<open>Collection.Dedup\<close>; the
  plain name \<open>Dedup\<close> is the function of package tag.
\<close>

subsection \<open>The struct Tag (tag.go, lines 20 to 27)\<close>

text \<open>
  A field left out of a composite literal has its zero value, which is \<open>False\<close> for the
  three flags.
\<close>

record Tag =
  ID :: string
  Desc :: string
  NeedsComments :: bool
  NeedsReviews :: bool
  NeedsTimeline :: bool

subsection \<open>Errors, log lines and calls to collaborators\<close>

text \<open>
  A Go \<^verbatim>\<open>error\<close> built by \<^verbatim>\<open>fmt.Errorf\<close> is kept as its format string and its
  arguments, unrendered; the same holds for the lines \<^verbatim>\<open>klog\<close> writes. An argument is a
  string, a slice of strings, an integer, a float, a duration or an error.
\<close>

datatype error = Errorf string "arg list"
  and arg = S string | L "string list" | N int | F real | D int | E error

datatype severity = INFO | WARNING | ERROR

text \<open>
  \<^verbatim>\<open>time.Duration\<close> is an \<^verbatim>\<open>int64\<close> count of nanoseconds; its arithmetic wraps around.
  \<^verbatim>\<open>time.Time\<close> is kept as an integer count of nanoseconds, with the zero value 0.
\<close>

type_synonym Duration = "64 word"
type_synonym timestamp = int

text \<open>
  The rule definition is declared outside the two files. Three of its fields are read
  here: \<^verbatim>\<open>t.Name\<close>, \<^verbatim>\<open>oc.Rule.Type\<close> and \<^verbatim>\<open>t.Repos\<close>.
\<close>

record Rule =
  Name :: string
  Type :: string
  Repos :: "string list"

text \<open>
  Modelled from the spec: \<^verbatim>\<open>hubbub.PullRequest\<close>, the item kind "pull-request" a rule
  declares, is a constant of a package outside the two files. No theorem below depends
  on its value.
\<close>

definition hubbub_PullRequest :: string where
  "hubbub_PullRequest = ''pull_request''"

text \<open>
  What a run does besides returning: the lines it logs and the calls it makes to the
  rule engine and to the search cache, in order. A call is recorded with the identifier
  or repository reference it is made for and with the error it returned, if any.
\<close>

datatype event =
    Klog severity string "arg list"
  | ExecuteRuleCall string Rule "error option"
  | FlushCall string string string Duration "error option"

subsection \<open>The structs of collection.go, lines 26 to 53\<close>

record Collection =
  ID :: string
  Name :: string
  Description :: string
  RuleIDs :: "string list"
  Dedup :: bool
  Hidden :: bool
  UsedForStats :: bool

text \<open>
  The result of one rule, produced by the rule engine. The type of an item is declared
  outside the two files and only the number of items is read, so it is a type
  parameter. \<^verbatim>\<open>oc.Rule\<close> is taken to be a rule that is there (a nil pointer would
  panic at line 101).
\<close>

record 'i RuleResult =
  Rule :: Rule
  Items :: "'i list"
  TotalAgeDays :: real
  TotalCurrentHoldDays :: real
  TotalAccumulatedHoldDays :: real

text \<open>
  A \<^verbatim>\<open>float64\<close> is modelled by the real number it denotes, with exact arithmetic;
  infinities, NaN and rounding are outside the model. Go's \<^verbatim>\<open>int\<close> is modelled by
  \<open>int\<close>: the counts are sums of slice lengths.
\<close>

record 'i CollectionResult =
  Time :: timestamp
  RuleResults :: "'i RuleResult list"
  Total :: int
  TotalPullRequests :: int
  TotalIssues :: int
  AvgAge :: Duration
  AvgCurrentHold :: Duration
  AvgAccumulatedHold :: Duration
  TotalAgeDays :: real
  TotalCurrentHoldDays :: real
  TotalAccumulatedHoldDays :: real

text \<open>
  The receiver \<^verbatim>\<open>p *Party\<close>. Of the party, the two files read \<^verbatim>\<open>p.collections\<close> and
  call \<^verbatim>\<open>p.LookupRule\<close>, \<^verbatim>\<open>p.ExecuteRule\<close> and \<^verbatim>\<open>p.engine.FlushSearchCache\<close>; they also
  call the package's \<^verbatim>\<open>parseRepo\<close> and \<^verbatim>\<open>time.Now\<close>. None of these is declared in the two
  files, so each is a parameter. The rule engine, the cache and the clock act on a world
  \<open>'w\<close> outside the program, which every call may read and change. \<^verbatim>\<open>ExecuteRule\<close> also
  updates the map \<^verbatim>\<open>seen\<close> it is given; \<^verbatim>\<open>ctx\<close> is part of the world. On success
  \<^verbatim>\<open>ExecuteRule\<close> is taken to return a result that is there.
\<close>

record ('i, 'w) Party =
  collections :: "Collection list"
  LookupRule :: "string \<Rightarrow> error + Rule"
  ExecuteRule :: "Rule \<Rightarrow> (string \<rightharpoonup> Rule) \<Rightarrow> 'w
                  \<Rightarrow> (error + 'i RuleResult) \<times> (string \<rightharpoonup> Rule) \<times> 'w"
  engine_FlushSearchCache :: "string \<Rightarrow> string \<Rightarrow> Duration \<Rightarrow> 'w \<Rightarrow> error option \<times> 'w"
  parseRepo :: "string \<Rightarrow> error + string \<times> string"
  time_Now :: "'w \<Rightarrow> timestamp \<times> 'w"

section \<open>Package tag: the tag vocabulary (pkg/tag/tag.go)\<close>

subsection \<open>The var block, lines 29 to 64\<close>

text \<open>Simple tags.\<close>

definition Assigned :: Tag where
  "Assigned = \<lparr>Tag.ID = ''assigned'', Desc = ''Someone is assigned'',
     NeedsComments = False, NeedsReviews = False, NeedsTimeline = False\<rparr>"

definition Closed :: Tag where
  "Closed = \<lparr>Tag.ID = ''closed'', Desc = ''This item has been closed'',
     NeedsComments = False, NeedsReviews = False, NeedsTimeline = False\<rparr>"

definition OpenMilestone :: Tag where
  "OpenMilestone = \<lparr>Tag.ID = ''open-milestone'',
     Desc = ''The issue is associated to an open milestone'',
     NeedsComments = False, NeedsReviews = False, NeedsTimeline = False\<rparr>"

definition Similar :: Tag where
  "Similar = \<lparr>Tag.ID = ''similar'', Desc = ''Title appears similar to another PR or issue'',
     NeedsComments = False, NeedsReviews = False, NeedsTimeline = False\<rparr>"

definition Merged :: Tag where
  "Merged = \<lparr>Tag.ID = ''merged'', Desc = ''PR was merged'',
     NeedsComments = False, NeedsReviews = False, NeedsTimeline = False\<rparr>"

definition Draft :: Tag where
  "Draft = \<lparr>Tag.ID = ''draft'', Desc = ''Draft PR'',
     NeedsComments = False, NeedsReviews = False, NeedsTimeline = False\<rparr>"

text \<open>Comment-based tags.\<close>

definition Commented :: Tag where
  "Commented = \<lparr>Tag.ID = ''commented'', Desc = ''A project member has commented on this'',
     NeedsComments = True, NeedsReviews = False, NeedsTimeline = False\<rparr>"

definition Send :: Tag where
  "Send = \<lparr>Tag.ID = ''send'',
     Desc = ''A project member commented more recently than the author'',
     NeedsComments = True, NeedsReviews = False, NeedsTimeline = False\<rparr>"

definition Recv :: Tag where
  "Recv = \<lparr>Tag.ID = ''recv'',
     Desc = ''The author commented more recently than a project member'',
     NeedsComments = True, NeedsReviews = False, NeedsTimeline = False\<rparr>"

definition RecvQ :: Tag where
  "RecvQ = \<lparr>Tag.ID = ''recv-q'',
     Desc = ''The author has asked a question since the last project member commented'',
     NeedsComments = True, NeedsReviews = False, NeedsTimeline = False\<rparr>"

definition AuthorLast :: Tag where
  "AuthorLast = \<lparr>Tag.ID = ''author-last'', Desc = ''The last commenter was the original author'',
     NeedsComments = True, NeedsReviews = False, NeedsTimeline = False\<rparr>"

definition AssigneeUpdated :: Tag where
  "AssigneeUpdated = \<lparr>Tag.ID = ''assignee-updated'',
     Desc = ''Issue has been updated by its assignee'',
     NeedsComments = True, NeedsReviews = False, NeedsTimeline = False\<rparr>"

text \<open>Timeline-based tags.\<close>

definition XrefApproved :: Tag where
  "XrefApproved = \<lparr>Tag.ID = ''pr-approved'', Desc = ''Last review was an approval'',
     NeedsComments = False, NeedsReviews = False, NeedsTimeline = True\<rparr>"

definition XrefReviewedWithComment :: Tag where
  "XrefReviewedWithComment = \<lparr>Tag.ID = ''pr-reviewed-with-comment'',
     Desc = ''Last review was a comment'',
     NeedsComments = False, NeedsReviews = False, NeedsTimeline = True\<rparr>"

definition XrefChangesRequested :: Tag where
  "XrefChangesRequested = \<lparr>Tag.ID = ''pr-changes-requested'',
     Desc = ''Last review was a request for changes'',
     NeedsComments = False, NeedsReviews = False, NeedsTimeline = True\<rparr>"

definition XrefNewCommits :: Tag where
  "XrefNewCommits = \<lparr>Tag.ID = ''pr-new-commits'',
     Desc = ''PR has commits since the last review'',
     NeedsComments = False, NeedsReviews = False, NeedsTimeline = True\<rparr>"

definition XrefPushedAfterApproval :: Tag where
  "XrefPushedAfterApproval = \<lparr>Tag.ID = ''pr-pushed-after-approval'',
     Desc = ''PR was pushed to after approval'',
     NeedsComments = False, NeedsReviews = False, NeedsTimeline = True\<rparr>"

definition XrefUnreviewed :: Tag where
  "XrefUnreviewed = \<lparr>Tag.ID = ''pr-unreviewed'', Desc = ''PR has never been reviewed'',
     NeedsComments = False, NeedsReviews = False, NeedsTimeline = True\<rparr>"

text \<open>Review-based tags.\<close>

definition Approved :: Tag where
  "Approved = \<lparr>Tag.ID = ''approved'', Desc = ''Last review was an approval'',
     NeedsComments = False, NeedsReviews = True, NeedsTimeline = False\<rparr>"

definition ReviewedWithComment :: Tag where
  "ReviewedWithComment = \<lparr>Tag.ID = ''reviewed-with-comment'',
     Desc = ''Last review was a comment'',
     NeedsComments = False, NeedsReviews = True, NeedsTimeline = False\<rparr>"

definition ChangesRequested :: Tag where
  "ChangesRequested = \<lparr>Tag.ID = ''changes-requested'',
     Desc = ''Last review was a request for changes'',
     NeedsComments = False, NeedsReviews = True, NeedsTimeline = False\<rparr>"

definition NewCommits :: Tag where
  "NewCommits = \<lparr>Tag.ID = ''new-commits'', Desc = ''PR has commits since the last review'',
     NeedsComments = False, NeedsReviews = True, NeedsTimeline = False\<rparr>"

definition PushedAfterApproval :: Tag where
  "PushedAfterApproval = \<lparr>Tag.ID = ''pushed-after-approval'',
     Desc = ''PR was pushed to after approval'',
     NeedsComments = False, NeedsReviews = True, NeedsTimeline = False\<rparr>"

definition Unreviewed :: Tag where
  "Unreviewed = \<lparr>Tag.ID = ''unreviewed'', Desc = ''PR has never been reviewed'',
     NeedsComments = False, NeedsReviews = True, NeedsTimeline = False\<rparr>"

text \<open>
  Special. The Go variable is \<^verbatim>\<open>None\<close>; the name is taken by the option type here,
  hence the suffix.
\<close>

definition None_tag :: Tag where
  "None_tag = \<lparr>Tag.ID = ''none'', Desc = ''No tag matched'',
     NeedsComments = True, NeedsReviews = True, NeedsTimeline = True\<rparr>"

text \<open>
  Every variable the var block declares, in the order of its lines. This list is not in
  the source as a value: it is the enumeration of lines 31 to 63 that the slice
  \<^verbatim>\<open>Tags\<close> is compared with.
\<close>

definition declared_tags :: "Tag list" where
  "declared_tags =
    [Assigned, Closed, OpenMilestone, Similar, Merged, Draft,
     Commented, Send, Recv, RecvQ, AuthorLast, AssigneeUpdated,
     XrefApproved, XrefReviewedWithComment, XrefChangesRequested, XrefNewCommits,
     XrefPushedAfterApproval, XrefUnreviewed,
     Approved, ReviewedWithComment, ChangesRequested, NewCommits, PushedAfterApproval,
     Unreviewed,
     None_tag]"

subsection \<open>The slice Tags, lines 66 to 91\<close>

definition Tags :: "Tag list" where
  "Tags =
    [Assigned,
     Closed,
     OpenMilestone,
     Similar,
     Merged,
     Draft,
     Commented,
     Send,
     Recv,
     RecvQ,
     AuthorLast,
     AssigneeUpdated,
     Approved,
     ReviewedWithComment,
     ChangesRequested,
     NewCommits,
     PushedAfterApproval,
     Unreviewed,
     XrefApproved,
     XrefReviewedWithComment,
     XrefChangesRequested,
     XrefNewCommits,
     XrefPushedAfterApproval,
     XrefUnreviewed]"

subsection \<open>Dedup, lines 100 to 113\<close>

text \<open>
  A Go \<^verbatim>\<open>map[string]bool\<close> is a partial map; reading a key that was never stored gives
  the zero value \<^verbatim>\<open>false\<close>.
\<close>

definition lookup_bool :: "(string \<rightharpoonup> bool) \<Rightarrow> string \<Rightarrow> bool" where
  "lookup_bool m k = (case m k of None \<Rightarrow> False | Some b \<Rightarrow> b)"

text \<open>
  The loop over \<^verbatim>\<open>tags\<close>. Its state is the pair of the two locals \<^verbatim>\<open>deduped\<close> and
  \<^verbatim>\<open>seen\<close>; \<^verbatim>\<open>continue\<close> leaves both as they are.
\<close>

fun Dedup_loop ::
  "Tag list \<Rightarrow> Tag list \<times> (string \<rightharpoonup> bool) \<Rightarrow> Tag list \<times> (string \<rightharpoonup> bool)" where
  "Dedup_loop [] (deduped, seen) = (deduped, seen)"
| "Dedup_loop (t # tags) (deduped, seen) =
     (if lookup_bool seen (Tag.ID t) then Dedup_loop tags (deduped, seen)
      else Dedup_loop tags (deduped @ [t], seen(Tag.ID t \<mapsto> True)))"

definition Dedup :: "Tag list \<Rightarrow> Tag list" where
  "Dedup tags = fst (Dedup_loop tags ([], Map.empty))"

text \<open>
  What the specification asks of \<^verbatim>\<open>Dedup\<close>, in its own words: the subsequence that
  retains exactly the first occurrence of each identity. Position \<open>i\<close> is a first
  occurrence when no earlier position carries the same identity.
\<close>

definition first_occurrences :: "Tag list \<Rightarrow> Tag list" where
  "first_occurrences tags =
     map (\<lambda>i. tags ! i)
       (filter (\<lambda>i. Tag.ID (tags ! i) \<notin> set (map Tag.ID (take i tags))) [0..<length tags])"

section \<open>Package triage: collections (pkg/triage/collection.go)\<close>

subsection \<open>avgDayDuration, lines 125 to 127\<close>

definition Hour :: Duration where
  "Hour = 3600000000000"

text \<open>
  The conversion \<^verbatim>\<open>int64(x)\<close> of a float discards the fraction, that is, it truncates
  towards zero. Where the truncated value does not fit an \<^verbatim>\<open>int64\<close>, or \<open>x\<close> is not
  finite, Go leaves the result to the implementation; the value below is the one amd64
  gives, and no theorem depends on it.
\<close>

definition int64_indefinite :: "64 word" where
  "int64_indefinite = - (2 ^ 63)"

definition truncate_towards_zero :: "real \<Rightarrow> int" where
  "truncate_towards_zero x = (if 0 \<le> x then \<lfloor>x\<rfloor> else \<lceil>x\<rceil>)"

definition int64_of_float64 :: "real \<Rightarrow> 64 word" where
  "int64_of_float64 x =
     (let t = truncate_towards_zero x
      in if - (2 ^ 63) \<le> t \<and> t < 2 ^ 63 then word_of_int t else int64_indefinite)"

text \<open>
  A float division by zero does not panic in Go: the quotient is an infinity or NaN,
  which the conversion then maps to the implementation's value.
\<close>

definition avgDayDuration :: "real \<Rightarrow> int \<Rightarrow> Duration" where
  "avgDayDuration total' count =
     (if count = 0 then int64_indefinite
      else int64_of_float64 (total' / real_of_int count * 24)) * Hour"

subsection \<open>SummarizeCollectionResult, lines 92 to 123\<close>

text \<open>The zero value \<^verbatim>\<open>CollectionResult{}\<close>.\<close>

definition CollectionResult_zero :: "'i CollectionResult" where
  "CollectionResult_zero =
     \<lparr>Time = 0, RuleResults = [], Total = 0, TotalPullRequests = 0, TotalIssues = 0,
      AvgAge = 0, AvgCurrentHold = 0, AvgAccumulatedHold = 0,
      CollectionResult.TotalAgeDays = 0, CollectionResult.TotalCurrentHoldDays = 0,
      CollectionResult.TotalAccumulatedHoldDays = 0\<rparr>"

text \<open>One pass of the loop body, lines 98 to 111, on the result \<open>r\<close> under construction.\<close>

definition Summarize_body :: "'i RuleResult \<Rightarrow> 'i CollectionResult \<Rightarrow> 'i CollectionResult" where
  "Summarize_body oc r =
     (let r1 = r\<lparr>Total := Total r + int (length (Items oc))\<rparr>;
          r2 = (if Rule.Type (RuleResult.Rule oc) = hubbub_PullRequest
                then r1\<lparr>TotalPullRequests := TotalPullRequests r1 + int (length (Items oc))\<rparr>
                else r1\<lparr>TotalIssues := TotalIssues r1 + int (length (Items oc))\<rparr>);
          r3 = r2\<lparr>RuleResults := RuleResults r2 @ [oc]\<rparr>;
          r4 = r3\<lparr>CollectionResult.TotalAgeDays :=
                    CollectionResult.TotalAgeDays r3 + RuleResult.TotalAgeDays oc\<rparr>;
          r5 = r4\<lparr>CollectionResult.TotalCurrentHoldDays :=
                    CollectionResult.TotalCurrentHoldDays r4 + RuleResult.TotalCurrentHoldDays oc\<rparr>
      in r5\<lparr>CollectionResult.TotalAccumulatedHoldDays :=
               CollectionResult.TotalAccumulatedHoldDays r5
               + RuleResult.TotalAccumulatedHoldDays oc\<rparr>)"

fun Summarize_loop ::
  "'i RuleResult list \<Rightarrow> 'i CollectionResult \<times> event list \<Rightarrow> 'i CollectionResult \<times> event list" where
  "Summarize_loop [] (r, tr) = (r, tr)"
| "Summarize_loop (oc # os) (r, tr) =
     Summarize_loop os
       (Summarize_body oc r,
        tr @ [Klog INFO ''total age is %.1f days'' [F (CollectionResult.TotalAgeDays r)]])"

definition SummarizeCollectionResult :: "'i RuleResult list \<Rightarrow> 'i CollectionResult \<times> event list" where
  "SummarizeCollectionResult os =
     (case Summarize_loop os
             (CollectionResult_zero,
              [Klog INFO ''Summarizing collection result with %s rules...'' [N (int (length os))]])
      of (r, tr) \<Rightarrow>
        if Total r = 0 then (r, tr @ [Klog WARNING ''no summary, total=0'' []])
        else
          (r\<lparr>AvgAge := avgDayDuration (CollectionResult.TotalAgeDays r) (Total r),
             AvgCurrentHold := avgDayDuration (CollectionResult.TotalCurrentHoldDays r) (Total r),
             AvgAccumulatedHold :=
               avgDayDuration (CollectionResult.TotalAccumulatedHoldDays r) (Total r)\<rparr>,
           tr))"

subsection \<open>ExecuteCollection, lines 56 to 89\<close>

text \<open>
  The loop over \<^verbatim>\<open>s.RuleIDs\<close>. Its state is the locals \<^verbatim>\<open>os\<close>, \<^verbatim>\<open>seen\<close> and
  \<^verbatim>\<open>seenRule\<close>, the world and the events so far. A \<^verbatim>\<open>return\<close> inside the loop ends it
  with \<open>Inl\<close> of the error: the Go function then returns a nil result.
\<close>

fun ExecuteCollection_loop ::
  "('i, 'w) Party \<Rightarrow> Collection \<Rightarrow> string list
   \<Rightarrow> 'i RuleResult list \<times> (string \<rightharpoonup> Rule) \<times> (string \<rightharpoonup> bool) \<times> 'w \<times> event list
   \<Rightarrow> (error + 'i RuleResult list) \<times> 'w \<times> event list" where
  "ExecuteCollection_loop p s [] (os, seen, seenRule, w, tr) = (Inr os, w, tr)"
| "ExecuteCollection_loop p s (tid # tids) (os, seen, seenRule, w, tr) =
     (if lookup_bool seenRule tid then
        ExecuteCollection_loop p s tids
          (os, seen, seenRule, w,
           tr @ [Klog ERROR ''collection %q has a duplicate rule: %q - ignoring''
                   [S (Collection.ID s), S tid]])
      else
        (case LookupRule p tid of
           Inl err \<Rightarrow> (Inl err, w, tr)
         | Inr t \<Rightarrow>
             (case ExecuteRule p t seen w of
                (Inl err, seen', w') \<Rightarrow>
                  (Inl (Errorf ''rule %q: %v'' [S (Rule.Name t), E err]), w',
                   tr @ [ExecuteRuleCall tid t (Some err)])
              | (Inr ro, seen', w') \<Rightarrow>
                  ExecuteCollection_loop p s tids
                    (os @ [ro], seen', seenRule(tid \<mapsto> True), w',
                     tr @ [ExecuteRuleCall tid t None]))))"

text \<open>
  The function returns the pair of Go results as a sum (\<open>Inl err\<close> is \<^verbatim>\<open>nil, err\<close> and
  \<open>Inr r\<close> is \<^verbatim>\<open>r, nil\<close>), the world it leaves and the events of the run.
\<close>

definition ExecuteCollection ::
  "('i, 'w) Party \<Rightarrow> Collection \<Rightarrow> 'w \<Rightarrow> (error + 'i CollectionResult) \<times> 'w \<times> event list" where
  "ExecuteCollection p s w0 =
     (case time_Now p w0 of (start, w1) \<Rightarrow>
        (case ExecuteCollection_loop p s (RuleIDs s)
                ([], Map.empty, Map.empty, w1,
                 [Klog INFO ''>>> Executing collection %q: %s''
                    [S (Collection.ID s), L (RuleIDs s)]])
         of (Inl err, w2, tr) \<Rightarrow> (Inl err, w2, tr)
          | (Inr os, w2, tr) \<Rightarrow>
              (case SummarizeCollectionResult os of (r, logs) \<Rightarrow>
                (case time_Now p w2 of (now, w3) \<Rightarrow>
                  (case time_Now p w3 of (fin, w4) \<Rightarrow>
                     (Inr (r\<lparr>Time := now\<rparr>), w4,
                      tr @ logs
                      @ [Klog INFO ''<<< Collection %q took %s to execute''
                           [S (Collection.ID s), D (fin - start)]]))))))"

subsection \<open>LookupCollection, lines 165 to 172\<close>

fun LookupCollection_loop :: "Collection list \<Rightarrow> string \<Rightarrow> error + Collection" where
  "LookupCollection_loop [] id' = Inl (Errorf ''%q not found'' [S id'])"
| "LookupCollection_loop (s # ss) id' =
     (if Collection.ID s = id' then Inr s else LookupCollection_loop ss id')"

definition LookupCollection :: "('i, 'w) Party \<Rightarrow> string \<Rightarrow> error + Collection" where
  "LookupCollection p id' = LookupCollection_loop (collections p) id'"

subsection \<open>FlushSearchCache, lines 130 to 157\<close>

text \<open>
  The inner loop, over the repositories \<^verbatim>\<open>t.Repos\<close> of one rule. An error of the cache
  is logged and the loop goes on; an error of \<^verbatim>\<open>parseRepo\<close> is returned.
\<close>

fun FlushSearchCache_repos ::
  "('i, 'w) Party \<Rightarrow> Duration \<Rightarrow> string list \<Rightarrow> (string \<rightharpoonup> bool) \<times> 'w \<times> event list
   \<Rightarrow> error option \<times> (string \<rightharpoonup> bool) \<times> 'w \<times> event list" where
  "FlushSearchCache_repos p minAge [] (flushed, w, tr) = (None, flushed, w, tr)"
| "FlushSearchCache_repos p minAge (r # rs) (flushed, w, tr) =
     (if \<not> lookup_bool flushed r then
        (case parseRepo p r of
           Inl err \<Rightarrow>
             (Some err, flushed, w, tr @ [Klog INFO ''Flushing search cache for %s ...'' [S r]])
         | Inr (org, project) \<Rightarrow>
             (case engine_FlushSearchCache p org project minAge w of (res, w') \<Rightarrow>
                FlushSearchCache_repos p minAge rs
                  (flushed(r \<mapsto> True), w',
                   tr @ [Klog INFO ''Flushing search cache for %s ...'' [S r],
                         FlushCall r org project minAge res]
                   @ (case res of
                        None \<Rightarrow> []
                      | Some err \<Rightarrow>
                          [Klog WARNING ''flush for %s/%s: %v'' [S org, S project, E err]]))))
      else FlushSearchCache_repos p minAge rs (flushed, w, tr))"

text \<open>The outer loop, over \<^verbatim>\<open>s.RuleIDs\<close>. It looks every identifier up, repeated or not.\<close>

fun FlushSearchCache_rules ::
  "('i, 'w) Party \<Rightarrow> Duration \<Rightarrow> string list \<Rightarrow> (string \<rightharpoonup> bool) \<times> 'w \<times> event list
   \<Rightarrow> error option \<times> 'w \<times> event list" where
  "FlushSearchCache_rules p minAge [] (flushed, w, tr) = (None, w, tr)"
| "FlushSearchCache_rules p minAge (tid # tids) (flushed, w, tr) =
     (case LookupRule p tid of
        Inl err \<Rightarrow> (Some err, w, tr)
      | Inr t \<Rightarrow>
          (case FlushSearchCache_repos p minAge (Repos t) (flushed, w, tr) of
             (Some err, flushed', w', tr') \<Rightarrow> (Some err, w', tr')
           | (None, flushed', w', tr') \<Rightarrow>
               FlushSearchCache_rules p minAge tids (flushed', w', tr')))"

text \<open>The error returned, \<open>None\<close> for \<^verbatim>\<open>nil\<close>, with the world and the events.\<close>

definition FlushSearchCache ::
  "('i, 'w) Party \<Rightarrow> string \<Rightarrow> Duration \<Rightarrow> 'w \<Rightarrow> error option \<times> 'w \<times> event list" where
  "FlushSearchCache p id' minAge w =
     (case LookupCollection p id' of
        Inl err \<Rightarrow> (Some err, w, [])
      | Inr s \<Rightarrow> FlushSearchCache_rules p minAge (RuleIDs s) (Map.empty, w, []))"

subsection \<open>Reading the events of a run\<close>

text \<open>The identifiers whose rule was handed to the rule engine, in the order of the calls.\<close>

fun evaluated :: "event list \<Rightarrow> string list" where
  "evaluated [] = []"
| "evaluated (ExecuteRuleCall tid t e # tr) = tid # evaluated tr"
| "evaluated (ev # tr) = evaluated tr"

text \<open>The identifiers reported as duplicates, as line 66 logs them.\<close>

fun duplicates_logged :: "event list \<Rightarrow> string list" where
  "duplicates_logged [] = []"
| "duplicates_logged (Klog ERROR fmt [S c, S tid] # tr) =
     (if fmt = ''collection %q has a duplicate rule: %q - ignoring''
      then tid # duplicates_logged tr else duplicates_logged tr)"
| "duplicates_logged (ev # tr) = duplicates_logged tr"

text \<open>The repository references a flush of the cache was requested for, in order.\<close>

fun flushed_refs :: "event list \<Rightarrow> string list" where
  "flushed_refs [] = []"
| "flushed_refs (FlushCall r org project minAge e # tr) = r # flushed_refs tr"
| "flushed_refs (ev # tr) = flushed_refs tr"

section \<open>The statements of the specification\<close>

text \<open>The number of items of a list of rule results.\<close>

definition item_count :: "'i RuleResult list \<Rightarrow> int" where
  "item_count os = (\<Sum>oc\<leftarrow>os. int (length (Items oc)))"



text \<open>
  The repository references of a collection's rules, rule by rule, in order; a rule
  identifier that does not resolve contributes none.
\<close>

definition collection_repos :: "('i, 'w) Party \<Rightarrow> Collection \<Rightarrow> string list" where
  "collection_repos p s =
     concat (map (\<lambda>tid. case LookupRule p tid of Inl err \<Rightarrow> [] | Inr t \<Rightarrow> Repos t)
               (RuleIDs s))"

section \<open>Concrete inputs\<close>

text \<open>
  Rules, rule results and a party for the examples below. Items are numbered. The
  world of the party is a counter that every call to the rule engine, the cache or the
  clock advances; the clock reads it.
\<close>

definition rule_a :: Rule where
  "rule_a = \<lparr>Rule.Name = ''rule a'', Type = ''issue'', Repos = [''org/proj'']\<rparr>"

definition rule_b :: Rule where
  "rule_b = \<lparr>Rule.Name = ''rule b'', Type = hubbub_PullRequest,
              Repos = [''org/proj'', ''org/other'']\<rparr>"

definition rule_c :: Rule where
  "rule_c = \<lparr>Rule.Name = ''rule c'', Type = ''issue'', Repos = [''not a repo'', ''org/proj'']\<rparr>"

definition rule_f :: Rule where
  "rule_f = \<lparr>Rule.Name = ''rule f'', Type = ''issue'', Repos = [''org/proj'']\<rparr>"

definition result_10 :: "nat RuleResult" where
  "result_10 = \<lparr>Rule = rule_a, Items = [1, 2], RuleResult.TotalAgeDays = 10,
                 RuleResult.TotalCurrentHoldDays = 4, RuleResult.TotalAccumulatedHoldDays = 6\<rparr>"

definition result_5 :: "nat RuleResult" where
  "result_5 = \<lparr>Rule = rule_b, Items = [3], RuleResult.TotalAgeDays = 5,
                RuleResult.TotalCurrentHoldDays = 2, RuleResult.TotalAccumulatedHoldDays = 3\<rparr>"

definition result_empty :: "nat RuleResult" where
  "result_empty = \<lparr>Rule = rule_a, Items = [], RuleResult.TotalAgeDays = 7,
                    RuleResult.TotalCurrentHoldDays = 0, RuleResult.TotalAccumulatedHoldDays = 0\<rparr>"


definition collection :: "string \<Rightarrow> string list \<Rightarrow> Collection" where
  "collection id' rids =
     \<lparr>Collection.ID = id', Collection.Name = id', Description = [], RuleIDs = rids,
      Collection.Dedup = False, Hidden = False, UsedForStats = False\<rparr>"

text \<open>
  The party resolves the identifiers \<open>a\<close>, \<open>b\<close>, \<open>c\<close> and \<open>f\<close>. Its rule engine fails on
  rule \<open>f\<close>, its parser accepts two references, and its cache fails for one of them.
\<close>

definition party :: "(nat, nat) Party" where
  "party =
     \<lparr>collections =
        [collection ''one'' [''a'', ''b''], collection ''two'' [''c'', ''b'']],
      LookupRule = (\<lambda>tid.
        if tid = ''a'' then Inr rule_a
        else if tid = ''b'' then Inr rule_b
        else if tid = ''c'' then Inr rule_c
        else if tid = ''f'' then Inr rule_f
        else Inl (Errorf ''rule %q is undefined - typo?'' [S tid])),
      ExecuteRule = (\<lambda>t seen w.
        if Rule.Name t = ''rule f'' then (Inl (Errorf ''search failed'' []), seen, Suc w)
        else if Rule.Name t = ''rule a'' then (Inr result_10, seen(''item 1'' \<mapsto> t), Suc w)
        else (Inr result_5, seen, Suc w)),
      engine_FlushSearchCache = (\<lambda>org project minAge w.
        (if project = ''other'' then Some (Errorf ''cache unavailable'' []) else None, Suc w)),
      parseRepo = (\<lambda>r.
        if r = ''org/proj'' then Inr (''org'', ''proj'')
        else if r = ''org/other'' then Inr (''org'', ''other'')
        else Inl (Errorf ''bad repo %q'' [S r])),
      time_Now = (\<lambda>w. (int w, Suc w))\<rparr>"

section \<open>Properties of the tag vocabulary\<close>

lemma Dedup_loop_append:
  "Dedup_loop (xs @ ys) st = Dedup_loop ys (Dedup_loop xs st)"
proof (induction xs arbitrary: st)
  case Nil
  show ?case by (cases st) simp
next
  case (Cons x xs)
  show ?case by (cases st) (simp add: Cons.IH)
qed

lemma first_occurrences_Nil: "first_occurrences [] = []"
  by (simp add: first_occurrences_def)

lemma first_occurrences_snoc:
  "first_occurrences (xs @ [x]) =
     first_occurrences xs @ (if Tag.ID x \<in> set (map Tag.ID xs) then [] else [x])"
proof -
  let ?P = "\<lambda>ys i. Tag.ID (ys ! i) \<notin> set (map Tag.ID (take i ys))"
  have idx: "[0..<length (xs @ [x])] = [0..<length xs] @ [length xs]"
    by simp
  have keep: "filter (?P (xs @ [x])) [0..<length xs] = filter (?P xs) [0..<length xs]"
    by (rule filter_cong) (auto simp: nth_append)
  have pick: "map (\<lambda>i. (xs @ [x]) ! i) (filter (?P xs) [0..<length xs])
              = map (\<lambda>i. xs ! i) (filter (?P xs) [0..<length xs])"
    by (rule map_cong) (auto simp: nth_append)
  have last: "map (\<lambda>i. (xs @ [x]) ! i) (filter (?P (xs @ [x])) [length xs])
              = (if Tag.ID x \<in> set (map Tag.ID xs) then [] else [x])"
    by simp
  have "first_occurrences (xs @ [x])
        = map (\<lambda>i. (xs @ [x]) ! i) (filter (?P (xs @ [x])) [0..<length xs])
          @ map (\<lambda>i. (xs @ [x]) ! i) (filter (?P (xs @ [x])) [length xs])"
    unfolding first_occurrences_def idx filter_append map_append ..
  also have "\<dots> = map (\<lambda>i. xs ! i) (filter (?P xs) [0..<length xs])
          @ (if Tag.ID x \<in> set (map Tag.ID xs) then [] else [x])"
    unfolding keep pick last ..
  finally show ?thesis
    unfolding first_occurrences_def .
qed

lemma lookup_bool_empty: "lookup_bool Map.empty k = False"
  by (simp add: lookup_bool_def)

lemma lookup_bool_upd: "lookup_bool (m(k \<mapsto> True)) k' = (k' = k \<or> lookup_bool m k')"
  by (simp add: lookup_bool_def)

text \<open>The loop invariant, after any prefix of the input has been consumed.\<close>

lemma Dedup_loop_invariant:
  "fst (Dedup_loop xs ([], Map.empty)) = first_occurrences xs \<and>
   (\<forall>k. lookup_bool (snd (Dedup_loop xs ([], Map.empty))) k = (k \<in> set (map Tag.ID xs)))"
proof (induction xs rule: rev_induct)
  case Nil
  show ?case by (simp add: first_occurrences_Nil lookup_bool_empty)
next
  case (snoc x xs)
  obtain d s where st: "Dedup_loop xs ([], Map.empty) = (d, s)"
    by (cases "Dedup_loop xs ([], Map.empty)")
  from snoc st have d: "d = first_occurrences xs"
    and s: "\<And>k. lookup_bool s k = (k \<in> set (map Tag.ID xs))"
    by simp_all
  show ?case
  proof (cases "Tag.ID x \<in> set (map Tag.ID xs)")
    case True
    then have "Dedup_loop (xs @ [x]) ([], Map.empty) = (d, s)"
      by (simp add: Dedup_loop_append st s del: set_map)
    with True show ?thesis
      by (auto simp: d s first_occurrences_snoc)
  next
    case False
    then have "Dedup_loop (xs @ [x]) ([], Map.empty) = (d @ [x], s(Tag.ID x \<mapsto> True))"
      by (simp add: Dedup_loop_append st s del: set_map)
    with False show ?thesis
      by (auto simp: d s first_occurrences_snoc lookup_bool_upd simp del: fun_upd_apply)
  qed
qed

lemma Dedup_first_occurrences: "Dedup tags = first_occurrences tags"
  by (simp add: Dedup_def Dedup_loop_invariant)

lemma first_occurrences_subseq: "subseq (first_occurrences xs) xs"
proof (induction xs rule: rev_induct)
  case Nil
  show ?case by (simp add: first_occurrences_Nil)
next
  case (snoc x xs)
  show ?case
  proof (cases "Tag.ID x \<in> set (map Tag.ID xs)")
    case True
    with snoc show ?thesis
      by (simp add: first_occurrences_snoc subseq_rev_drop_many del: set_map)
  next
    case False
    with snoc show ?thesis
      by (simp add: first_occurrences_snoc del: set_map)
  qed
qed

lemma first_occurrences_ids: "set (map Tag.ID (first_occurrences xs)) = set (map Tag.ID xs)"
  by (induction xs rule: rev_induct) (auto simp: first_occurrences_Nil first_occurrences_snoc)

lemma first_occurrences_distinct: "distinct (map Tag.ID (first_occurrences xs))"
proof (induction xs rule: rev_induct)
  case Nil
  show ?case by (simp add: first_occurrences_Nil)
next
  case (snoc x xs)
  have "set (map Tag.ID (first_occurrences xs)) = set (map Tag.ID xs)"
    by (rule first_occurrences_ids)
  with snoc show ?case
    by (auto simp: first_occurrences_snoc)
qed

lemma first_occurrences_of_distinct:
  "distinct (map Tag.ID xs) \<Longrightarrow> first_occurrences xs = xs"
proof (induction xs rule: rev_induct)
  case Nil
  show ?case by (simp add: first_occurrences_Nil)
next
  case (snoc x xs)
  then show ?case by (auto simp: first_occurrences_snoc)
qed

lemmas tag_defs =
  Assigned_def Closed_def OpenMilestone_def Similar_def Merged_def Draft_def
  Commented_def Send_def Recv_def RecvQ_def AuthorLast_def AssigneeUpdated_def
  XrefApproved_def XrefReviewedWithComment_def XrefChangesRequested_def XrefNewCommits_def
  XrefPushedAfterApproval_def XrefUnreviewed_def
  Approved_def ReviewedWithComment_def ChangesRequested_def NewCommits_def
  PushedAfterApproval_def Unreviewed_def None_tag_def

lemma Tags_ids:
  "map Tag.ID Tags =
    [''assigned'', ''closed'', ''open-milestone'', ''similar'', ''merged'', ''draft'',
     ''commented'', ''send'', ''recv'', ''recv-q'', ''author-last'', ''assignee-updated'',
     ''approved'', ''reviewed-with-comment'', ''changes-requested'', ''new-commits'',
     ''pushed-after-approval'', ''unreviewed'',
     ''pr-approved'', ''pr-reviewed-with-comment'', ''pr-changes-requested'',
     ''pr-new-commits'', ''pr-pushed-after-approval'', ''pr-unreviewed'']"
  by (simp add: Tags_def tag_defs)

lemma Tags_ids_distinct: "distinct (map Tag.ID Tags)"
  unfolding Tags_ids by simp

lemma None_tag_not_in_Tags: "None_tag \<notin> set Tags"
proof
  assume "None_tag \<in> set Tags"
  then have "Tag.ID None_tag \<in> Tag.ID ` set Tags"
    by (rule imageI)
  then have "Tag.ID None_tag \<in> set (map Tag.ID Tags)"
    by (simp only: set_map)
  then show False
    unfolding Tags_ids by (simp add: None_tag_def)
qed

lemma declared_tags_split: "set declared_tags = insert None_tag (set Tags)"
  by (auto simp: Tags_def declared_tags_def)

subsection \<open>The registry\<close>

text \<open>
  C2, as stated, fails: the claim has the slice \<^verbatim>\<open>Tags\<close> contain every tag the var
  block declares. The block declares \<^verbatim>\<open>None\<close> (line 63) and the slice, lines 66 to 91,
  does not list it.
\<close>

theorem Tags_lacks_None_tag:
  "None_tag \<in> set declared_tags \<and> None_tag \<notin> set Tags"
  using None_tag_not_in_Tags by (simp add: declared_tags_split)

text \<open>
  C2, amended: the slice \<^verbatim>\<open>Tags\<close> contains every tag the var block declares other than
  the special tag \<^verbatim>\<open>None\<close>, and nothing else, and no two tags of the slice share an
  \<^verbatim>\<open>ID\<close>.
\<close>

theorem Tags_registry:
  "set Tags = set declared_tags - {None_tag} \<and> distinct (map Tag.ID Tags)"
  using None_tag_not_in_Tags Tags_ids_distinct by (simp add: declared_tags_split)

subsection \<open>Dedup\<close>

text \<open>
  C3: for every sequence of tags, \<^verbatim>\<open>Dedup\<close> returns the subsequence that retains exactly
  the first occurrence of each \<^verbatim>\<open>ID\<close>, in the original order: the result is the list of
  first occurrences, it is a subsequence of the input, its identities are pairwise
  distinct and are those of the input, and it is no longer than the input.
\<close>

theorem Dedup_keeps_first_occurrences:
  "Dedup tags = first_occurrences tags \<and>
   subseq (Dedup tags) tags \<and>
   distinct (map Tag.ID (Dedup tags)) \<and>
   set (map Tag.ID (Dedup tags)) = set (map Tag.ID tags) \<and>
   length (Dedup tags) \<le> length tags"
proof -
  have "length (first_occurrences tags) \<le> length tags"
    using first_occurrences_subseq [of tags] by (rule list_emb_length)
  then show ?thesis
    unfolding Dedup_first_occurrences
    using first_occurrences_subseq [of tags] first_occurrences_distinct [of tags]
      first_occurrences_ids [of tags]
    by simp
qed

text \<open>The example of the specification: \<^verbatim>\<open>[Approved, Closed, Approved]\<close>.\<close>

theorem Dedup_keeps_first_occurrences_witness:
  "Dedup [Approved, Closed, Approved] = [Approved, Closed] \<and>
   length (Dedup [Approved, Closed, Approved]) \<le> 3"
  using Dedup_keeps_first_occurrences [of "[Approved, Closed, Approved]"]
  by (simp add: first_occurrences_def Approved_def Closed_def upt_rec)

text \<open>C4: \<^verbatim>\<open>Dedup\<close> is idempotent.\<close>

theorem Dedup_idempotent: "Dedup (Dedup x) = Dedup x"
  by (simp add: Dedup_first_occurrences first_occurrences_of_distinct
      first_occurrences_distinct)

section \<open>Properties of the aggregation\<close>

lemma Summarize_body_fields:
  "Total (Summarize_body oc r) = Total r + int (length (Items oc))"
  "TotalPullRequests (Summarize_body oc r) =
     TotalPullRequests r
     + (if Rule.Type (RuleResult.Rule oc) = hubbub_PullRequest then int (length (Items oc))
        else 0)"
  "TotalIssues (Summarize_body oc r) =
     TotalIssues r
     + (if Rule.Type (RuleResult.Rule oc) = hubbub_PullRequest then 0
        else int (length (Items oc)))"
  "RuleResults (Summarize_body oc r) = RuleResults r @ [oc]"
  "CollectionResult.TotalAgeDays (Summarize_body oc r) =
     CollectionResult.TotalAgeDays r + RuleResult.TotalAgeDays oc"
  "CollectionResult.TotalCurrentHoldDays (Summarize_body oc r) =
     CollectionResult.TotalCurrentHoldDays r + RuleResult.TotalCurrentHoldDays oc"
  "CollectionResult.TotalAccumulatedHoldDays (Summarize_body oc r) =
     CollectionResult.TotalAccumulatedHoldDays r + RuleResult.TotalAccumulatedHoldDays oc"
  "AvgAge (Summarize_body oc r) = AvgAge r"
  "AvgCurrentHold (Summarize_body oc r) = AvgCurrentHold r"
  "AvgAccumulatedHold (Summarize_body oc r) = AvgAccumulatedHold r"
  "Time (Summarize_body oc r) = Time r"
  by (simp_all add: Summarize_body_def Let_def)

lemma Summarize_loop_fields:
  "Total (fst (Summarize_loop os (r, tr))) = Total r + item_count os"
  "TotalPullRequests (fst (Summarize_loop os (r, tr))) =
     TotalPullRequests r
     + item_count (filter (\<lambda>oc. Rule.Type (RuleResult.Rule oc) = hubbub_PullRequest) os)"
  "TotalIssues (fst (Summarize_loop os (r, tr))) =
     TotalIssues r
     + item_count (filter (\<lambda>oc. Rule.Type (RuleResult.Rule oc) \<noteq> hubbub_PullRequest) os)"
  "RuleResults (fst (Summarize_loop os (r, tr))) = RuleResults r @ os"
  "CollectionResult.TotalAgeDays (fst (Summarize_loop os (r, tr))) =
     CollectionResult.TotalAgeDays r + (\<Sum>oc\<leftarrow>os. RuleResult.TotalAgeDays oc)"
  "CollectionResult.TotalCurrentHoldDays (fst (Summarize_loop os (r, tr))) =
     CollectionResult.TotalCurrentHoldDays r + (\<Sum>oc\<leftarrow>os. RuleResult.TotalCurrentHoldDays oc)"
  "CollectionResult.TotalAccumulatedHoldDays (fst (Summarize_loop os (r, tr))) =
     CollectionResult.TotalAccumulatedHoldDays r
     + (\<Sum>oc\<leftarrow>os. RuleResult.TotalAccumulatedHoldDays oc)"
  "AvgAge (fst (Summarize_loop os (r, tr))) = AvgAge r"
  "AvgCurrentHold (fst (Summarize_loop os (r, tr))) = AvgCurrentHold r"
  "AvgAccumulatedHold (fst (Summarize_loop os (r, tr))) = AvgAccumulatedHold r"
  "Time (fst (Summarize_loop os (r, tr))) = Time r"
  by (induction os arbitrary: r tr; simp add: Summarize_body_fields item_count_def)+

lemma Summarize_loop_trace:
  "snd (Summarize_loop os (r, tr)) =
     tr @ map (\<lambda>x. Klog INFO ''total age is %.1f days'' [F x])
            (map (\<lambda>n. CollectionResult.TotalAgeDays r
                        + (\<Sum>oc\<leftarrow>take n os. RuleResult.TotalAgeDays oc))
               [0..<length os])"
proof (induction os arbitrary: r tr)
  case Nil
  show ?case by simp
next
  case (Cons oc os)
  have shift: "[0..<length (oc # os)] = 0 # map Suc [0..<length os]"
    by (simp add: upt_conv_Cons map_Suc_upt del: upt_Suc)
  show ?case
    unfolding shift
    by (simp add: Cons.IH Summarize_body_fields add.assoc comp_def del: upt_Suc)
qed

lemma item_count_nonneg: "0 \<le> item_count os"
  by (induction os) (simp_all add: item_count_def)

text \<open>The result of the aggregation, field by field.\<close>

lemma Summarize_counts:
  "Total (fst (SummarizeCollectionResult os)) = item_count os"
  "TotalPullRequests (fst (SummarizeCollectionResult os)) =
     item_count (filter (\<lambda>oc. Rule.Type (RuleResult.Rule oc) = hubbub_PullRequest) os)"
  "TotalIssues (fst (SummarizeCollectionResult os)) =
     item_count (filter (\<lambda>oc. Rule.Type (RuleResult.Rule oc) \<noteq> hubbub_PullRequest) os)"
  "RuleResults (fst (SummarizeCollectionResult os)) = os"
  "CollectionResult.TotalAgeDays (fst (SummarizeCollectionResult os)) =
     (\<Sum>oc\<leftarrow>os. RuleResult.TotalAgeDays oc)"
  "CollectionResult.TotalCurrentHoldDays (fst (SummarizeCollectionResult os)) =
     (\<Sum>oc\<leftarrow>os. RuleResult.TotalCurrentHoldDays oc)"
  "CollectionResult.TotalAccumulatedHoldDays (fst (SummarizeCollectionResult os)) =
     (\<Sum>oc\<leftarrow>os. RuleResult.TotalAccumulatedHoldDays oc)"
  by (simp_all add: SummarizeCollectionResult_def split_beta Summarize_loop_fields
      CollectionResult_zero_def)





lemma Summarize_averages:
  "AvgAge (fst (SummarizeCollectionResult os)) =
     (if item_count os = 0 then 0
      else avgDayDuration (\<Sum>oc\<leftarrow>os. RuleResult.TotalAgeDays oc) (item_count os))"
  "AvgCurrentHold (fst (SummarizeCollectionResult os)) =
     (if item_count os = 0 then 0
      else avgDayDuration (\<Sum>oc\<leftarrow>os. RuleResult.TotalCurrentHoldDays oc) (item_count os))"
  "AvgAccumulatedHold (fst (SummarizeCollectionResult os)) =
     (if item_count os = 0 then 0
      else avgDayDuration (\<Sum>oc\<leftarrow>os. RuleResult.TotalAccumulatedHoldDays oc) (item_count os))"
  by (simp_all add: SummarizeCollectionResult_def split_beta Summarize_loop_fields
      CollectionResult_zero_def)

lemma Summarize_trace:
  "snd (SummarizeCollectionResult os) =
     snd (Summarize_loop os (CollectionResult_zero,
            [Klog INFO ''Summarizing collection result with %s rules...'' [N (int (length os))]]))
     @ (if item_count os = 0 then [Klog WARNING ''no summary, total=0'' []] else [])"
  by (simp add: SummarizeCollectionResult_def split_beta Summarize_loop_fields
      CollectionResult_zero_def)

subsection \<open>Counts by kind\<close>

text \<open>
  C10: for every list of rule results, the result of \<^verbatim>\<open>SummarizeCollectionResult\<close> has
  \<^verbatim>\<open>Total == TotalPullRequests + TotalIssues\<close>. \<^verbatim>\<open>Total\<close> counts every item once,
  \<^verbatim>\<open>TotalPullRequests\<close> the items of the rules whose kind is pull-request and
  \<^verbatim>\<open>TotalIssues\<close> the items of every other rule.
\<close>

theorem Summarize_kind_buckets:
  "Total (fst (SummarizeCollectionResult os))
     = TotalPullRequests (fst (SummarizeCollectionResult os))
       + TotalIssues (fst (SummarizeCollectionResult os)) \<and>
   Total (fst (SummarizeCollectionResult os)) = item_count os \<and>
   TotalPullRequests (fst (SummarizeCollectionResult os))
     = item_count (filter (\<lambda>oc. Rule.Type (RuleResult.Rule oc) = hubbub_PullRequest) os) \<and>
   TotalIssues (fst (SummarizeCollectionResult os))
     = item_count (filter (\<lambda>oc. Rule.Type (RuleResult.Rule oc) \<noteq> hubbub_PullRequest) os)"
proof -
  have "item_count os
        = item_count (filter (\<lambda>oc. Rule.Type (RuleResult.Rule oc) = hubbub_PullRequest) os)
          + item_count (filter (\<lambda>oc. Rule.Type (RuleResult.Rule oc) \<noteq> hubbub_PullRequest) os)"
    by (induction os) (simp_all add: item_count_def)
  then show ?thesis
    by (simp add: Summarize_counts)
qed

subsection \<open>No items\<close>

text \<open>
  C7: for every list of rule results whose total item count is zero,
  \<^verbatim>\<open>SummarizeCollectionResult\<close> returns a result with \<^verbatim>\<open>Total == 0\<close> and the three
  averages at the zero duration. It returns at line 116, before any average is computed,
  and the last line it logs is the warning of line 115. The function has no error
  result: its value is the result alone. \<^verbatim>\<open>Total\<close> is never negative, and for every
  input an average is zero when \<^verbatim>\<open>Total\<close> is zero and is computed by \<^verbatim>\<open>avgDayDuration\<close>,
  with the count \<^verbatim>\<open>Total\<close>, otherwise: no average is computed with a count of zero.
\<close>

theorem Summarize_no_items:
  "(item_count os = 0 \<longrightarrow>
      Total (fst (SummarizeCollectionResult os)) = 0 \<and>
      AvgAge (fst (SummarizeCollectionResult os)) = 0 \<and>
      AvgCurrentHold (fst (SummarizeCollectionResult os)) = 0 \<and>
      AvgAccumulatedHold (fst (SummarizeCollectionResult os)) = 0 \<and>
      last (snd (SummarizeCollectionResult os)) = Klog WARNING ''no summary, total=0'' []) \<and>
   0 \<le> Total (fst (SummarizeCollectionResult os)) \<and>
   AvgAge (fst (SummarizeCollectionResult os)) =
     (if Total (fst (SummarizeCollectionResult os)) = 0 then 0
      else avgDayDuration (CollectionResult.TotalAgeDays (fst (SummarizeCollectionResult os)))
             (Total (fst (SummarizeCollectionResult os)))) \<and>
   AvgCurrentHold (fst (SummarizeCollectionResult os)) =
     (if Total (fst (SummarizeCollectionResult os)) = 0 then 0
      else avgDayDuration
             (CollectionResult.TotalCurrentHoldDays (fst (SummarizeCollectionResult os)))
             (Total (fst (SummarizeCollectionResult os)))) \<and>
   AvgAccumulatedHold (fst (SummarizeCollectionResult os)) =
     (if Total (fst (SummarizeCollectionResult os)) = 0 then 0
      else avgDayDuration
             (CollectionResult.TotalAccumulatedHoldDays (fst (SummarizeCollectionResult os)))
             (Total (fst (SummarizeCollectionResult os))))"
  by (simp add: Summarize_counts Summarize_averages Summarize_trace item_count_nonneg)

text \<open>
  Two rule results without items, each with a total age of 7 days: the days are summed,
  the averages stay zero.
\<close>

theorem Summarize_no_items_witness:
  "item_count [result_empty, result_empty] = 0 \<and>
   Total (fst (SummarizeCollectionResult [result_empty, result_empty])) = 0 \<and>
   AvgAge (fst (SummarizeCollectionResult [result_empty, result_empty])) = 0 \<and>
   CollectionResult.TotalAgeDays (fst (SummarizeCollectionResult [result_empty, result_empty])) = 14"
proof -
  have h: "item_count [result_empty, result_empty] = 0"
    by (simp add: item_count_def result_empty_def)
  have "CollectionResult.TotalAgeDays (fst (SummarizeCollectionResult [result_empty, result_empty])) = 14"
    by (simp add: Summarize_counts result_empty_def)
  with h Summarize_no_items [of "[result_empty, result_empty]"] show ?thesis by simp
qed

subsection \<open>Averages\<close>




section \<open>Properties of the execution of a collection\<close>

lemma ExecuteCollection_loop_events:
  "ExecuteCollection_loop p s tids (os, seen, seenRule, w, tr @ tr') =
     (case ExecuteCollection_loop p s tids (os, seen, seenRule, w, tr') of
        (res, w', evs) \<Rightarrow> (res, w', tr @ evs))"
proof (induction tids arbitrary: os seen seenRule w tr')
  case Nil
  show ?case by simp
next
  case (Cons tid tids)
  show ?case
  proof (cases "lookup_bool seenRule tid")
    case True
    then have step: "ExecuteCollection_loop p s (tid # tids) (os, seen, seenRule, w, X) =
                ExecuteCollection_loop p s tids
                  (os, seen, seenRule, w,
                   X @ [Klog ERROR ''collection %q has a duplicate rule: %q - ignoring''
                          [S (Collection.ID s), S tid]])" for X
      by simp
    show ?thesis
      unfolding step append_assoc
      by (rule Cons.IH)
  next
    case False
    show ?thesis
    proof (cases "LookupRule p tid")
      case (Inl err)
      with False show ?thesis by simp
    next
      case (Inr t)
      obtain r seen' w1 where ex: "ExecuteRule p t seen w = (r, seen', w1)"
        by (cases "ExecuteRule p t seen w")
      show ?thesis
      proof (cases r)
        case (Inl err)
        with False Inr ex show ?thesis by simp
      next
        case r: (Inr ro)
        have step: "ExecuteCollection_loop p s (tid # tids) (os, seen, seenRule, w, X) =
                    ExecuteCollection_loop p s tids
                      (os @ [ro], seen', seenRule(tid \<mapsto> True), w1,
                       X @ [ExecuteRuleCall tid t None])" for X
          using False Inr ex r by simp
        show ?thesis
          unfolding step append_assoc
          by (rule Cons.IH)
      qed
    qed
  qed
qed

lemma ExecuteCollection_loop_from:
  "ExecuteCollection_loop p s tids (os, seen, seenRule, w, [ev]) =
     (case ExecuteCollection_loop p s tids (os, seen, seenRule, w, []) of
        (res, w', evs) \<Rightarrow> (res, w', ev # evs))"
  using ExecuteCollection_loop_events [of p s tids os seen seenRule w "[ev]" "[]"] by simp

lemma ExecuteCollection_loop_cases [consumes 1, case_names Nil Duplicate LookupFailed EvalFailed Evaluated]:
  assumes "ExecuteCollection_loop p s tids (os, seen, seenRule, w, []) = (res, w', evs)"
    and "\<And>os seen seenRule w. P [] os seen seenRule w (Inr os) w []"
    and "\<And>tid tids os seen seenRule w res w' evs.
           lookup_bool seenRule tid \<Longrightarrow>
           ExecuteCollection_loop p s tids (os, seen, seenRule, w, []) = (res, w', evs) \<Longrightarrow>
           P tids os seen seenRule w res w' evs \<Longrightarrow>
           P (tid # tids) os seen seenRule w res w'
             (Klog ERROR ''collection %q has a duplicate rule: %q - ignoring''
                [S (Collection.ID s), S tid] # evs)"
    and "\<And>tid tids os seen seenRule w err.
           \<not> lookup_bool seenRule tid \<Longrightarrow> LookupRule p tid = Inl err \<Longrightarrow>
           P (tid # tids) os seen seenRule w (Inl err) w []"
    and "\<And>tid tids os seen seenRule w t err seen' w1.
           \<not> lookup_bool seenRule tid \<Longrightarrow> LookupRule p tid = Inr t \<Longrightarrow>
           ExecuteRule p t seen w = (Inl err, seen', w1) \<Longrightarrow>
           P (tid # tids) os seen seenRule w
             (Inl (Errorf ''rule %q: %v'' [S (Rule.Name t), E err])) w1
             [ExecuteRuleCall tid t (Some err)]"
    and "\<And>tid tids os seen seenRule w t ro seen' w1 res w' evs.
           \<not> lookup_bool seenRule tid \<Longrightarrow> LookupRule p tid = Inr t \<Longrightarrow>
           ExecuteRule p t seen w = (Inr ro, seen', w1) \<Longrightarrow>
           ExecuteCollection_loop p s tids (os @ [ro], seen', seenRule(tid \<mapsto> True), w1, [])
             = (res, w', evs) \<Longrightarrow>
           P tids (os @ [ro]) seen' (seenRule(tid \<mapsto> True)) w1 res w' evs \<Longrightarrow>
           P (tid # tids) os seen seenRule w res w' (ExecuteRuleCall tid t None # evs)"
  shows "P tids os seen seenRule w res w' evs"
  using assms(1)
proof (induction tids arbitrary: os seen seenRule w res w' evs)
  case Nil
  then show ?case using assms(2) [of os seen seenRule w] by auto
next
  case (Cons tid tids)
  show ?case
  proof (cases "lookup_bool seenRule tid")
    case True
    obtain res0 w0 evs0 where
      rec: "ExecuteCollection_loop p s tids (os, seen, seenRule, w, []) = (res0, w0, evs0)"
      by (cases "ExecuteCollection_loop p s tids (os, seen, seenRule, w, [])")
    from Cons.prems True rec have
      "res = res0" "w' = w0"
      "evs = Klog ERROR ''collection %q has a duplicate rule: %q - ignoring''
                [S (Collection.ID s), S tid] # evs0"
      by (simp_all add: ExecuteCollection_loop_from)
    with assms(3) [OF True rec Cons.IH [OF rec]] show ?thesis by simp
  next
    case False
    show ?thesis
    proof (cases "LookupRule p tid")
      case (Inl err)
      with Cons.prems False assms(4) [OF False Inl] show ?thesis by simp
    next
      case (Inr t)
      obtain r seen' w1 where ex: "ExecuteRule p t seen w = (r, seen', w1)"
        by (cases "ExecuteRule p t seen w")
      show ?thesis
      proof (cases r)
        case (Inl err)
        with Cons.prems False Inr ex assms(5) [OF False Inr ex [unfolded Inl]]
        show ?thesis by simp
      next
        case r: (Inr ro)
        obtain res0 w0 evs0 where
          rec: "ExecuteCollection_loop p s tids
                  (os @ [ro], seen', seenRule(tid \<mapsto> True), w1, []) = (res0, w0, evs0)"
          by (cases "ExecuteCollection_loop p s tids
                  (os @ [ro], seen', seenRule(tid \<mapsto> True), w1, [])")
        from Cons.prems False Inr ex r rec have
          "res = res0" "w' = w0" "evs = ExecuteRuleCall tid t None # evs0"
          by (simp_all add: ExecuteCollection_loop_from)
        with assms(6) [OF False Inr ex [unfolded r] rec Cons.IH [OF rec]]
        show ?thesis by simp
      qed
    qed
  qed
qed

lemma evaluated_append: "evaluated (xs @ ys) = evaluated xs @ evaluated ys"
  by (induction xs rule: evaluated.induct) simp_all

lemma duplicates_logged_append:
  "duplicates_logged (xs @ ys) = duplicates_logged xs @ duplicates_logged ys"
  by (induction xs rule: duplicates_logged.induct) simp_all

text \<open>A failed evaluation ends the loop with the wrapped error.\<close>

lemma loop_failed_evaluation:
  assumes "ExecuteCollection_loop p s tids (os, seen, seenRule, w, []) = (res, w', evs)"
  shows "ExecuteRuleCall tid t (Some e) \<in> set evs \<Longrightarrow>
         res = Inl (Errorf ''rule %q: %v'' [S (Rule.Name t), E e])"
  using assms
  by (induction rule: ExecuteCollection_loop_cases) auto







lemma Klog_only_events:
  "evaluated (map (\<lambda>x. Klog sev fmt (g x)) xs) = []"
  "duplicates_logged (map (\<lambda>x. Klog INFO fmt (g x)) xs) = []"
  "ExecuteRuleCall tid t e \<notin> set (map (\<lambda>x. Klog sev fmt (g x)) xs)"
  by (induction xs) auto

lemma Summarize_events:
  "evaluated (snd (SummarizeCollectionResult os)) = []"
  "duplicates_logged (snd (SummarizeCollectionResult os)) = []"
  "ExecuteRuleCall tid t e \<notin> set (snd (SummarizeCollectionResult os))"
  unfolding Summarize_trace Summarize_loop_trace map_map comp_def
  by (auto simp: evaluated_append duplicates_logged_append Klog_only_events
      simp del: upt_Suc)

lemma ExecuteCollection_of_loop:
  assumes "time_Now p w0 = (start, w1)"
    and "ExecuteCollection_loop p s (RuleIDs s) ([], Map.empty, Map.empty, w1, [])
           = (res, w2, evs)"
  shows "ExecuteCollection p s w0 =
     (case res of
        Inl err \<Rightarrow>
          (Inl err, w2,
           Klog INFO ''>>> Executing collection %q: %s'' [S (Collection.ID s), L (RuleIDs s)]
           # evs)
      | Inr os \<Rightarrow>
          (Inr ((fst (SummarizeCollectionResult os))\<lparr>Time := fst (time_Now p w2)\<rparr>),
           snd (time_Now p (snd (time_Now p w2))),
           Klog INFO ''>>> Executing collection %q: %s'' [S (Collection.ID s), L (RuleIDs s)]
           # evs @ snd (SummarizeCollectionResult os)
           @ [Klog INFO ''<<< Collection %q took %s to execute''
                [S (Collection.ID s),
                 D (fst (time_Now p (snd (time_Now p w2))) - start)]]))"
  using assms
  by (simp add: ExecuteCollection_def ExecuteCollection_loop_from split_beta
      split: sum.splits)

lemma ExecuteCollection_cases [case_names Failed Done]:
  obtains (Failed) start w1 err w2 evs where
      "time_Now p w0 = (start, w1)"
      "ExecuteCollection_loop p s (RuleIDs s) ([], Map.empty, Map.empty, w1, [])
         = (Inl err, w2, evs)"
      "fst (ExecuteCollection p s w0) = Inl err"
      "snd (snd (ExecuteCollection p s w0)) =
         Klog INFO ''>>> Executing collection %q: %s'' [S (Collection.ID s), L (RuleIDs s)]
         # evs"
  | (Done) start w1 os w2 evs now fin where
      "time_Now p w0 = (start, w1)"
      "ExecuteCollection_loop p s (RuleIDs s) ([], Map.empty, Map.empty, w1, [])
         = (Inr os, w2, evs)"
      "fst (ExecuteCollection p s w0) = Inr ((fst (SummarizeCollectionResult os))\<lparr>Time := now\<rparr>)"
      "snd (snd (ExecuteCollection p s w0)) =
         Klog INFO ''>>> Executing collection %q: %s'' [S (Collection.ID s), L (RuleIDs s)]
         # evs @ snd (SummarizeCollectionResult os)
         @ [Klog INFO ''<<< Collection %q took %s to execute''
              [S (Collection.ID s), D (fin - start)]]"
proof -
  obtain start w1 where now: "time_Now p w0 = (start, w1)"
    by (cases "time_Now p w0")
  obtain res w2 evs where
    run: "ExecuteCollection_loop p s (RuleIDs s) ([], Map.empty, Map.empty, w1, [])
            = (res, w2, evs)"
    by (cases "ExecuteCollection_loop p s (RuleIDs s) ([], Map.empty, Map.empty, w1, [])")
  show thesis
  proof (cases res)
    case (Inl err)
    show thesis
      by (rule Failed [OF now run [unfolded Inl]])
        (simp_all add: ExecuteCollection_of_loop [OF now run] Inl)
  next
    case (Inr os)
    show thesis
      by (rule Done [OF now run [unfolded Inr]])
        (simp_all add: ExecuteCollection_of_loop [OF now run] Inr)
  qed
qed




lemmas fixture_defs = party_def collection_def rule_a_def rule_b_def rule_c_def rule_f_def
  result_10_def result_5_def

subsection \<open>A rule whose evaluation fails\<close>

text \<open>
  C6: for every collection, if the evaluation of a rule fails during a run of
  \<^verbatim>\<open>ExecuteCollection\<close>, that is, a call of \<^verbatim>\<open>ExecuteRule\<close> for a rule \<open>t\<close> returns an
  error \<open>e\<close>, then the run returns a nil result and the error \<open>e\<close> wrapped with the name
  of \<open>t\<close>, as \<^verbatim>\<open>fmt.Errorf("rule %q: %v", t.Name, e)\<close> builds it. No result is returned
  on this path.
\<close>

theorem failed_evaluation_aborts:
  assumes "ExecuteRuleCall tid t (Some e) \<in> set (snd (snd (ExecuteCollection p s w)))"
  shows "fst (ExecuteCollection p s w) = Inl (Errorf ''rule %q: %v'' [S (Rule.Name t), E e])"
proof (cases rule: ExecuteCollection_cases [where p = p and s = s and ?w0.0 = w])
  case (Failed start w1 err w2 evs)
  from assms Failed(4) have "ExecuteRuleCall tid t (Some e) \<in> set evs"
    by simp
  from loop_failed_evaluation [OF Failed(2) this] Failed(3) show ?thesis
    by simp
next
  case (Done start w1 os w2 evs now fin)
  from assms Done(4) have "ExecuteRuleCall tid t (Some e) \<in> set evs"
    by (simp add: Summarize_events)
  from loop_failed_evaluation [OF Done(2) this] show ?thesis
    by simp
qed

text \<open>The party's rule engine fails on rule \<open>f\<close>, the second of three rules.\<close>

lemma run_failing:
  "ExecuteCollection party (collection ''c'' [''a'', ''f'', ''b'']) 0 =
     (Inl (Errorf ''rule %q: %v'' [S ''rule f'', E (Errorf ''search failed'' [])]), 3,
      [Klog INFO ''>>> Executing collection %q: %s'' [S ''c'', L [''a'', ''f'', ''b'']],
       ExecuteRuleCall ''a'' rule_a None,
       ExecuteRuleCall ''f'' rule_f (Some (Errorf ''search failed'' []))])"
  by (simp add: ExecuteCollection_def fixture_defs lookup_bool_def)

theorem failed_evaluation_aborts_witness:
  "ExecuteRuleCall ''f'' rule_f (Some (Errorf ''search failed'' []))
     \<in> set (snd (snd (ExecuteCollection party (collection ''c'' [''a'', ''f'', ''b'']) 0))) \<and>
   fst (ExecuteCollection party (collection ''c'' [''a'', ''f'', ''b'']) 0)
     = Inl (Errorf ''rule %q: %v'' [S ''rule f'', E (Errorf ''search failed'' [])])"
proof -
  have h: "ExecuteRuleCall ''f'' rule_f (Some (Errorf ''search failed'' []))
     \<in> set (snd (snd (ExecuteCollection party (collection ''c'' [''a'', ''f'', ''b'']) 0)))"
    by (simp add: run_failing)
  from failed_evaluation_aborts [OF h] h show ?thesis
    by (simp add: rule_f_def)
qed

subsection \<open>A rule identifier that does not resolve\<close>





subsection \<open>Repeated rule identifiers\<close>




section \<open>Properties of the cache flush\<close>

lemma flushed_refs_append: "flushed_refs (xs @ ys) = flushed_refs xs @ flushed_refs ys"
  by (induction xs rule: flushed_refs.induct) simp_all

lemma FlushSearchCache_repos_refs:
  assumes "FlushSearchCache_repos p minAge rs (flushed, w, tr) = (res, flushed', w', tr')"
  shows "\<exists>new. flushed_refs tr' = flushed_refs tr @ new \<and> distinct new \<and>
           set new \<subseteq> {r \<in> set rs. \<not> lookup_bool flushed r} \<and>
           (\<forall>k. lookup_bool flushed' k = (lookup_bool flushed k \<or> k \<in> set new)) \<and>
           (res = None \<longrightarrow> set new = {r \<in> set rs. \<not> lookup_bool flushed r})"
  using assms
proof (induction rs arbitrary: flushed w tr)
  case Nil
  then show ?case by simp
next
  case (Cons r rs)
  show ?case
  proof (cases "lookup_bool flushed r")
    case True
    with Cons.prems have "FlushSearchCache_repos p minAge rs (flushed, w, tr) = (res, flushed', w', tr')"
      by simp
    from Cons.IH [OF this] True show ?thesis
      by auto
  next
    case False
    show ?thesis
    proof (cases "parseRepo p r")
      case (Inl err)
      with Cons.prems False show ?thesis
        by (auto simp: flushed_refs_append)
    next
      case (Inr op)
      obtain org project where op: "op = (org, project)"
        by (cases op)
      obtain res1 w1 where call: "engine_FlushSearchCache p org project minAge w = (res1, w1)"
        by (cases "engine_FlushSearchCache p org project minAge w")
      let ?tr1 = "tr @ [Klog INFO ''Flushing search cache for %s ...'' [S r],
                        FlushCall r org project minAge res1]
                  @ (case res1 of None \<Rightarrow> []
                     | Some err \<Rightarrow> [Klog WARNING ''flush for %s/%s: %v'' [S org, S project, E err]])"
      from Cons.prems False Inr op call
      have rec: "FlushSearchCache_repos p minAge rs (flushed(r \<mapsto> True), w1, ?tr1)
                 = (res, flushed', w', tr')"
        by simp
      have tr1: "flushed_refs ?tr1 = flushed_refs tr @ [r]"
        by (cases res1) (simp_all add: flushed_refs_append)
      from Cons.IH [OF rec] obtain new where
        new: "flushed_refs tr' = flushed_refs ?tr1 @ new" "distinct new"
          "set new \<subseteq> {x \<in> set rs. \<not> lookup_bool (flushed(r \<mapsto> True)) x}"
          "\<forall>k. lookup_bool flushed' k = (lookup_bool (flushed(r \<mapsto> True)) k \<or> k \<in> set new)"
          "res = None \<longrightarrow> set new = {x \<in> set rs. \<not> lookup_bool (flushed(r \<mapsto> True)) x}"
        by blast
      have "flushed_refs tr' = flushed_refs tr @ (r # new)"
        using new(1) tr1 by simp
      moreover have "distinct (r # new)"
        using new(2,3) by (auto simp: lookup_bool_upd simp del: fun_upd_apply)
      moreover have "set (r # new) \<subseteq> {x \<in> set (r # rs). \<not> lookup_bool flushed x}"
        using new(3) False by (auto simp: lookup_bool_upd simp del: fun_upd_apply)
      moreover have "\<forall>k. lookup_bool flushed' k = (lookup_bool flushed k \<or> k \<in> set (r # new))"
        using new(4) by (auto simp: lookup_bool_upd simp del: fun_upd_apply)
      moreover have "res = None \<longrightarrow> set (r # new) = {x \<in> set (r # rs). \<not> lookup_bool flushed x}"
        using new(5) False by (auto simp: lookup_bool_upd simp del: fun_upd_apply)
      ultimately show ?thesis
        by blast
    qed
  qed
qed

lemma FlushSearchCache_rules_refs:
  assumes "FlushSearchCache_rules p minAge tids (flushed, w, tr) = (res, w', tr')"
  shows "\<exists>new. flushed_refs tr' = flushed_refs tr @ new \<and> distinct new \<and>
           set new \<subseteq> {r \<in> set (concat (map (\<lambda>tid. case LookupRule p tid of
                                   Inl err \<Rightarrow> [] | Inr t \<Rightarrow> Repos t) tids)).
                         \<not> lookup_bool flushed r} \<and>
           (res = None \<longrightarrow>
              set new = {r \<in> set (concat (map (\<lambda>tid. case LookupRule p tid of
                                   Inl err \<Rightarrow> [] | Inr t \<Rightarrow> Repos t) tids)).
                         \<not> lookup_bool flushed r} \<and>
              (\<forall>tid \<in> set tids. \<exists>t. LookupRule p tid = Inr t))"
  using assms
proof (induction tids arbitrary: flushed w tr)
  case Nil
  then show ?case by simp
next
  case (Cons tid tids)
  show ?case
  proof (cases "LookupRule p tid")
    case (Inl err)
    with Cons.prems show ?thesis by auto
  next
    case (Inr t)
    obtain res1 flushed1 w1 tr1 where
      inner: "FlushSearchCache_repos p minAge (Repos t) (flushed, w, tr) = (res1, flushed1, w1, tr1)"
      by (cases "FlushSearchCache_repos p minAge (Repos t) (flushed, w, tr)")
    from FlushSearchCache_repos_refs [OF inner] obtain new1 where
      new1: "flushed_refs tr1 = flushed_refs tr @ new1" "distinct new1"
        "set new1 \<subseteq> {r \<in> set (Repos t). \<not> lookup_bool flushed r}"
        "\<forall>k. lookup_bool flushed1 k = (lookup_bool flushed k \<or> k \<in> set new1)"
        "res1 = None \<longrightarrow> set new1 = {r \<in> set (Repos t). \<not> lookup_bool flushed r}"
      by blast
    show ?thesis
    proof (cases res1)
      case (Some err)
      with Cons.prems Inr inner have "res = Some err" "tr' = tr1"
        by simp_all
      with new1 Inr show ?thesis
        by auto
    next
      case None
      with Cons.prems Inr inner
      have rec: "FlushSearchCache_rules p minAge tids (flushed1, w1, tr1) = (res, w', tr')"
        by simp
      from Cons.IH [OF rec] obtain new2 where
        new2: "flushed_refs tr' = flushed_refs tr1 @ new2" "distinct new2"
          "set new2 \<subseteq> {r \<in> set (concat (map (\<lambda>tid. case LookupRule p tid of
                                   Inl err \<Rightarrow> [] | Inr t \<Rightarrow> Repos t) tids)).
                         \<not> lookup_bool flushed1 r}"
          "res = None \<longrightarrow>
              set new2 = {r \<in> set (concat (map (\<lambda>tid. case LookupRule p tid of
                                   Inl err \<Rightarrow> [] | Inr t \<Rightarrow> Repos t) tids)).
                         \<not> lookup_bool flushed1 r} \<and>
              (\<forall>tid \<in> set tids. \<exists>t. LookupRule p tid = Inr t)"
        by blast
      have "flushed_refs tr' = flushed_refs tr @ (new1 @ new2)"
        using new1(1) new2(1) by simp
      moreover have "distinct (new1 @ new2)"
        using new1(2,4) new2(2,3) by auto
      moreover have "set (new1 @ new2)
          \<subseteq> {r \<in> set (concat (map (\<lambda>tid. case LookupRule p tid of
                                   Inl err \<Rightarrow> [] | Inr t \<Rightarrow> Repos t) (tid # tids))).
                         \<not> lookup_bool flushed r}"
        using new1(3,4) new2(3) Inr by auto
      moreover have "res = None \<longrightarrow>
              set (new1 @ new2) = {r \<in> set (concat (map (\<lambda>tid. case LookupRule p tid of
                                   Inl err \<Rightarrow> [] | Inr t \<Rightarrow> Repos t) (tid # tids))).
                         \<not> lookup_bool flushed r} \<and>
              (\<forall>k \<in> set (tid # tids). \<exists>t. LookupRule p k = Inr t)"
        using new1(4,5) new2(4) Inr None by auto
      ultimately show ?thesis
        by blast
    qed
  qed
qed

lemma FlushSearchCache_repos_calls:
  assumes "FlushSearchCache_repos p minAge rs (flushed, w, tr) = (res, flushed', w', tr')"
    and "FlushCall r org project m e \<in> set tr'"
  shows "FlushCall r org project m e \<in> set tr \<or>
         (parseRepo p r = Inr (org, project) \<and> m = minAge)"
  using assms
proof (induction rs arbitrary: flushed w tr)
  case Nil
  then show ?case by simp
next
  case (Cons x rs)
  show ?case
  proof (cases "lookup_bool flushed x")
    case True
    with Cons.prems Cons.IH [of flushed w tr] show ?thesis
      by simp
  next
    case False
    show ?thesis
    proof (cases "parseRepo p x")
      case (Inl err)
      with Cons.prems False show ?thesis
        by auto
    next
      case (Inr op)
      obtain org1 project1 where op: "op = (org1, project1)"
        by (cases op)
      obtain res1 w1 where call: "engine_FlushSearchCache p org1 project1 minAge w = (res1, w1)"
        by (cases "engine_FlushSearchCache p org1 project1 minAge w")
      let ?tr1 = "tr @ [Klog INFO ''Flushing search cache for %s ...'' [S x],
                        FlushCall x org1 project1 minAge res1]
                  @ (case res1 of None \<Rightarrow> []
                     | Some err \<Rightarrow>
                         [Klog WARNING ''flush for %s/%s: %v'' [S org1, S project1, E err]])"
      from Cons.prems(1) False Inr op call
      have rec: "FlushSearchCache_repos p minAge rs (flushed(x \<mapsto> True), w1, ?tr1)
                 = (res, flushed', w', tr')"
        by simp
      from Cons.IH [OF rec Cons.prems(2)] Inr op show ?thesis
        by (cases res1) auto
    qed
  qed
qed

lemma FlushSearchCache_rules_calls:
  assumes "FlushSearchCache_rules p minAge tids (flushed, w, tr) = (res, w', tr')"
    and "FlushCall r org project m e \<in> set tr'"
  shows "FlushCall r org project m e \<in> set tr \<or>
         (parseRepo p r = Inr (org, project) \<and> m = minAge)"
  using assms
proof (induction tids arbitrary: flushed w tr)
  case Nil
  then show ?case by simp
next
  case (Cons tid tids)
  show ?case
  proof (cases "LookupRule p tid")
    case (Inl err)
    with Cons.prems show ?thesis by auto
  next
    case (Inr t)
    obtain res1 flushed1 w1 tr1 where
      inner: "FlushSearchCache_repos p minAge (Repos t) (flushed, w, tr) = (res1, flushed1, w1, tr1)"
      by (cases "FlushSearchCache_repos p minAge (Repos t) (flushed, w, tr)")
    show ?thesis
    proof (cases res1)
      case (Some err)
      with Cons.prems Inr inner have "tr' = tr1"
        by simp
      with FlushSearchCache_repos_calls [OF inner] Cons.prems(2) show ?thesis
        by simp
    next
      case None
      with Cons.prems Inr inner
      have rec: "FlushSearchCache_rules p minAge tids (flushed1, w1, tr1) = (res, w', tr')"
        by simp
      from Cons.IH [OF rec Cons.prems(2)] FlushSearchCache_repos_calls [OF inner]
      show ?thesis
        by blast
    qed
  qed
qed

subsection \<open>One flush for each repository reference\<close>

text \<open>
  C9, amended: \<^verbatim>\<open>FlushSearchCache\<close> never requests a flush twice for one repository
  reference, and requests flushes only for references of the collection's rules; each
  request is for the organization and project \<^verbatim>\<open>parseRepo\<close> gives for the reference,
  with the \<^verbatim>\<open>minAge\<close> of the call. When the call returns nil, it has requested exactly one
  flush for each distinct repository reference of the collection's rules, also for a
  reference several rules share.
\<close>

theorem flush_once_per_repository:
  "distinct (flushed_refs (snd (snd (FlushSearchCache p id' minAge w)))) \<and>
   (\<forall>s. LookupCollection p id' = Inr s \<longrightarrow>
      set (flushed_refs (snd (snd (FlushSearchCache p id' minAge w))))
        \<subseteq> set (collection_repos p s)) \<and>
   (fst (FlushSearchCache p id' minAge w) = None \<longrightarrow>
      (\<exists>s. LookupCollection p id' = Inr s \<and>
        set (flushed_refs (snd (snd (FlushSearchCache p id' minAge w))))
          = set (collection_repos p s))) \<and>
   (\<forall>r org project m e.
      FlushCall r org project m e \<in> set (snd (snd (FlushSearchCache p id' minAge w))) \<longrightarrow>
      parseRepo p r = Inr (org, project) \<and> m = minAge)"
proof (cases "LookupCollection p id'")
  case (Inl err)
  then show ?thesis
    by (simp add: FlushSearchCache_def)
next
  case (Inr s)
  obtain res w' tr where
    run: "FlushSearchCache_rules p minAge (RuleIDs s) (Map.empty, w, []) = (res, w', tr)"
    by (cases "FlushSearchCache_rules p minAge (RuleIDs s) (Map.empty, w, [])")
  with Inr have all: "FlushSearchCache p id' minAge w = (res, w', tr)"
    by (simp add: FlushSearchCache_def)
  have calls: "parseRepo p r = Inr (org, project) \<and> m = minAge"
    if "FlushCall r org project m e \<in> set tr" for r org project m e
    using FlushSearchCache_rules_calls [OF run that] by simp
  from FlushSearchCache_rules_refs [OF run] calls show ?thesis
    unfolding all collection_repos_def
    by (auto simp: Inr lookup_bool_empty)
qed

text \<open>
  The example of the specification: collection \<open>one\<close> has the rules \<open>a\<close> and \<open>b\<close>, which
  both reference \<open>org/proj\<close>. The cache fails for \<open>org/other\<close>; this is logged and the call
  returns nil.
\<close>

lemma run_flush_one:
  "FlushSearchCache party ''one'' 5 0 =
     (None, 2,
      [Klog INFO ''Flushing search cache for %s ...'' [S ''org/proj''],
       FlushCall ''org/proj'' ''org'' ''proj'' 5 None,
       Klog INFO ''Flushing search cache for %s ...'' [S ''org/other''],
       FlushCall ''org/other'' ''org'' ''other'' 5 (Some (Errorf ''cache unavailable'' [])),
       Klog WARNING ''flush for %s/%s: %v''
         [S ''org'', S ''other'', E (Errorf ''cache unavailable'' [])]])"
  by (simp add: FlushSearchCache_def LookupCollection_def party_def collection_def
      rule_a_def rule_b_def rule_c_def rule_f_def lookup_bool_def)

theorem flush_once_per_repository_witness:
  "fst (FlushSearchCache party ''one'' 5 0) = None \<and>
   collection_repos party (collection ''one'' [''a'', ''b''])
     = [''org/proj'', ''org/proj'', ''org/other''] \<and>
   flushed_refs (snd (snd (FlushSearchCache party ''one'' 5 0))) = [''org/proj'', ''org/other''] \<and>
   set (flushed_refs (snd (snd (FlushSearchCache party ''one'' 5 0))))
     = set (collection_repos party (collection ''one'' [''a'', ''b'']))"
proof -
  have h: "fst (FlushSearchCache party ''one'' 5 0) = None"
    by (simp add: run_flush_one)
  have c: "LookupCollection party ''one'' = Inr (collection ''one'' [''a'', ''b''])"
    by (simp add: LookupCollection_def party_def collection_def)
  have r: "collection_repos party (collection ''one'' [''a'', ''b''])
     = [''org/proj'', ''org/proj'', ''org/other'']"
    by (simp add: collection_repos_def party_def collection_def rule_a_def rule_b_def)
  from flush_once_per_repository [of party "''one''" 5 0] h c
  have "set (flushed_refs (snd (snd (FlushSearchCache party ''one'' 5 0))))
     = set (collection_repos party (collection ''one'' [''a'', ''b'']))"
    by simp
  with h r show ?thesis
    by (simp add: run_flush_one)
qed

text \<open>
  C9, as stated, fails: the claim has every collection get exactly one flush for each
  distinct repository reference. The first rule of collection \<open>two\<close> has a reference
  that \<^verbatim>\<open>parseRepo\<close> rejects: line 147 returns the error, and no flush is requested for
  \<open>org/proj\<close> or \<open>org/other\<close>, which the collection's rules reference too.
\<close>

theorem flush_aborted_by_unparsable_repository:
  "LookupCollection party ''two'' = Inr (collection ''two'' [''c'', ''b'']) \<and>
   collection_repos party (collection ''two'' [''c'', ''b''])
     = [''not a repo'', ''org/proj'', ''org/proj'', ''org/other''] \<and>
   fst (FlushSearchCache party ''two'' 5 0) = Some (Errorf ''bad repo %q'' [S ''not a repo'']) \<and>
   flushed_refs (snd (snd (FlushSearchCache party ''two'' 5 0))) = [] \<and>
   count_list (flushed_refs (snd (snd (FlushSearchCache party ''two'' 5 0)))) ''org/proj'' \<noteq> 1"
  by (simp add: FlushSearchCache_def LookupCollection_def collection_repos_def party_def
      collection_def rule_a_def rule_b_def rule_c_def rule_f_def lookup_bool_def)

end
